theory Spec2Isabelle
  imports Main
begin

section \<open>Python primitives used by the path utilities\<close>

text \<open>
  Paths are Python strings, modelled as \<open>string\<close> (a list of characters) wherever all
  strings of a call have one type. The two list operations of \<open>vfs_normpath\<close> that can
  raise, \<open>new_comps[-1]\<close> and \<open>new_comps.pop()\<close>, return the error as a value, and so
  does the concatenation of a byte string with a unicode string (section
  \<open>vfs_construct_path\<close> on both string types).
\<close>

datatype py_error = IndexError | UnicodeDecodeError

definition startswith :: "string \<Rightarrow> string \<Rightarrow> bool" where
  \<comment> \<open>\<open>s.startswith(pre)\<close>\<close>
  "startswith s pre = (take (length pre) s = pre)"

definition endswith :: "string \<Rightarrow> string \<Rightarrow> bool" where
  \<comment> \<open>\<open>s.endswith(suf)\<close>\<close>
  "endswith s suf = (length suf \<le> length s \<and> drop (length s - length suf) s = suf)"

fun py_split :: "char \<Rightarrow> string \<Rightarrow> string list" where
  \<comment> \<open>\<open>s.split(sep)\<close> for a one-character separator: never an empty list\<close>
  "py_split sep [] = [[]]"
| "py_split sep (c # cs) =
     (if c = sep then [] # py_split sep cs
      else (c # hd (py_split sep cs)) # tl (py_split sep cs))"

fun py_join :: "string \<Rightarrow> string list \<Rightarrow> string" where
  \<comment> \<open>\<open>sep.join(xs)\<close>\<close>
  "py_join sep [] = []"
| "py_join sep [x] = x"
| "py_join sep (x # y # ys) = x @ sep @ py_join sep (y # ys)"

definition py_repeat :: "string \<Rightarrow> nat \<Rightarrow> string" where
  \<comment> \<open>\<open>s * n\<close>\<close>
  "py_repeat s n = concat (replicate n s)"

definition py_last :: "'a list \<Rightarrow> py_error + 'a" where
  \<comment> \<open>\<open>xs[-1]\<close>\<close>
  "py_last xs = (if xs = [] then Inl IndexError else Inr (last xs))"

definition py_pop :: "'a list \<Rightarrow> py_error + 'a list" where
  \<comment> \<open>\<open>xs.pop()\<close>: the list that is left\<close>
  "py_pop xs = (if xs = [] then Inl IndexError else Inr (butlast xs))"

section \<open>\<open>vfs_construct_path\<close>\<close>

text \<open>
  The loop \<open>for b in p\<close> of \<open>vfs_construct_path(a, *p)\<close>, with the variable
  \<open>path\<close> as the first argument; the call starts it at \<open>path = a\<close>. This is the
  function on strings of one type, where \<open>+\<close> cannot raise; the next section has it on
  both string types of Python 2, with the error of a failed concatenation, and
  \<open>construct_path_typed_str\<close> below relates the two.
\<close>

fun vfs_construct_path :: "string \<Rightarrow> string list \<Rightarrow> string" where
  "vfs_construct_path path [] = path"
| "vfs_construct_path path (b # p) =
     (if startswith b ''/'' then vfs_construct_path b p
      else if path = '''' \<or> endswith path ''/'' then vfs_construct_path (path @ b) p
      else vfs_construct_path (path @ ''/'' @ b) p)"

section \<open>\<open>vfs_construct_path\<close> on both string types\<close>

text \<open>
  Python 2 has two string types: \<open>str\<close>, a sequence of bytes, and \<open>unicode\<close>, a
  sequence of code points. The module has no \<open>unicode_literals\<close> import, so the literals
  \<open>'/'\<close> and \<open>''\<close> of the source are byte strings. Where a byte string meets a unicode
  string, Python decodes the byte string with the default codec, ASCII, and raises
  \<open>UnicodeDecodeError\<close> on a byte above 127. The tests against the ASCII literals
  (\<open>startswith\<close>, \<open>endswith\<close>, \<open>==\<close>) cannot fail; \<open>+\<close> can.
\<close>

datatype pystr = Str string | Unicode "nat list"

definition is_ascii :: "string \<Rightarrow> bool" where
  "is_ascii bs = list_all (\<lambda>c. (of_char c :: nat) < 128) bs"

definition py_decode :: "string \<Rightarrow> py_error + nat list" where
  \<comment> \<open>the implicit \<open>unicode(bs)\<close> of a mixed operation\<close>
  "py_decode bs = (if is_ascii bs then Inr (map of_char bs) else Inl UnicodeDecodeError)"

fun py_add :: "pystr \<Rightarrow> pystr \<Rightarrow> py_error + pystr" where
  \<comment> \<open>\<open>a + b\<close>\<close>
  "py_add (Str a) (Str b) = Inr (Str (a @ b))"
| "py_add (Unicode a) (Unicode b) = Inr (Unicode (a @ b))"
| "py_add (Str a) (Unicode b) =
     (case py_decode a of Inl e \<Rightarrow> Inl e | Inr a' \<Rightarrow> Inr (Unicode (a' @ b)))"
| "py_add (Unicode a) (Str b) =
     (case py_decode b of Inl e \<Rightarrow> Inl e | Inr b' \<Rightarrow> Inr (Unicode (a @ b')))"

fun typed_startswith :: "pystr \<Rightarrow> string \<Rightarrow> bool" where
  \<comment> \<open>\<open>s.startswith(lit)\<close> for an ASCII literal \<open>lit\<close>\<close>
  "typed_startswith (Str bs) lit = startswith bs lit"
| "typed_startswith (Unicode us) lit = (take (length lit) us = map of_char lit)"

fun typed_endswith :: "pystr \<Rightarrow> string \<Rightarrow> bool" where
  \<comment> \<open>\<open>s.endswith(lit)\<close> for an ASCII literal \<open>lit\<close>\<close>
  "typed_endswith (Str bs) lit = endswith bs lit"
| "typed_endswith (Unicode us) lit =
     (length lit \<le> length us \<and> drop (length us - length lit) us = map of_char lit)"

fun typed_empty :: "pystr \<Rightarrow> bool" where
  \<comment> \<open>\<open>s == ''\<close>\<close>
  "typed_empty (Str bs) = (bs = [])"
| "typed_empty (Unicode us) = (us = [])"

text \<open>
  \<open>path += '/' + b\<close> evaluates \<open>'/' + b\<close> first and then adds the result to \<open>path\<close>.
\<close>

fun vfs_construct_path_typed :: "pystr \<Rightarrow> pystr list \<Rightarrow> py_error + pystr" where
  "vfs_construct_path_typed path [] = Inr path"
| "vfs_construct_path_typed path (b # p) =
     (if typed_startswith b ''/'' then vfs_construct_path_typed b p
      else if typed_empty path \<or> typed_endswith path ''/'' then
        (case py_add path b of
           Inl e \<Rightarrow> Inl e
         | Inr path' \<Rightarrow> vfs_construct_path_typed path' p)
      else
        (case py_add (Str ''/'') b of
           Inl e \<Rightarrow> Inl e
         | Inr slash_b \<Rightarrow>
             (case py_add path slash_b of
                Inl e \<Rightarrow> Inl e
              | Inr path' \<Rightarrow> vfs_construct_path_typed path' p)))"

fun is_str :: "pystr \<Rightarrow> bool" where
  "is_str (Str bs) = True"
| "is_str (Unicode us) = False"

fun ascii_pystr :: "pystr \<Rightarrow> bool" where
  \<comment> \<open>a unicode string, or a byte string of ASCII bytes only\<close>
  "ascii_pystr (Str bs) = is_ascii bs"
| "ascii_pystr (Unicode us) = True"

section \<open>\<open>vfs_normpath\<close>\<close>

text \<open>
  \<open>initial_slashes\<close> is \<open>False\<close>, \<open>True\<close> or \<open>2\<close> in the source; Python reads the
  booleans as 0 and 1 in \<open>slash*initial_slashes\<close>, so it is a natural number here.
  \<open>slash\<close> and \<open>dot\<close> are the strings \<open>/\<close> and \<open>.\<close> in the string type of the
  path. Every string operation of \<open>vfs_normpath\<close> combines the path, or a piece of it,
  with a piece of the same path, with \<open>slash\<close> or \<open>dot\<close>, or with an ASCII literal, so no
  decoding can fail and one string type is enough for it.
\<close>

definition initial_slashes :: "string \<Rightarrow> nat" where
  "initial_slashes path =
     (if startswith path ''/'' \<and> startswith path ''//'' \<and> \<not> startswith path ''///''
      then 2
      else if startswith path ''/'' then 1 else 0)"

text \<open>
  The test of the second \<open>if\<close> of the loop body, with Python's short-circuit evaluation:
  \<open>new_comps[-1]\<close> is read only when \<open>new_comps\<close> is non-empty.
\<close>

definition append_test :: "nat \<Rightarrow> string list \<Rightarrow> string \<Rightarrow> py_error + bool" where
  "append_test slashes new_comps cmp =
     (if cmp \<noteq> ''..'' then Inr True
      else if slashes = 0 \<and> new_comps = [] then Inr True
      else if new_comps = [] then Inr False
      else (case py_last new_comps of
              Inl e \<Rightarrow> Inl e
            | Inr l \<Rightarrow> Inr (l = ''..'')))"

definition norm_step :: "nat \<Rightarrow> string list \<Rightarrow> string \<Rightarrow> py_error + string list" where
  "norm_step slashes new_comps cmp =
     (if cmp = '''' \<or> cmp = ''.'' then Inr new_comps
      else (case append_test slashes new_comps cmp of
              Inl e \<Rightarrow> Inl e
            | Inr t \<Rightarrow>
                if t then Inr (new_comps @ [cmp])
                else if new_comps \<noteq> [] then py_pop new_comps
                else Inr new_comps))"

fun norm_loop :: "nat \<Rightarrow> string list \<Rightarrow> string list \<Rightarrow> py_error + string list" where
  "norm_loop slashes new_comps [] = Inr new_comps"
| "norm_loop slashes new_comps (cmp # comps) =
     (case norm_step slashes new_comps cmp of
        Inl e \<Rightarrow> Inl e
      | Inr new_comps' \<Rightarrow> norm_loop slashes new_comps' comps)"

definition norm_comps :: "string \<Rightarrow> py_error + string list" where
  \<comment> \<open>\<open>new_comps\<close> after the loop over \<open>path.split('/')\<close>\<close>
  "norm_comps path = norm_loop (initial_slashes path) [] (py_split CHR ''/'' path)"

definition restore_slashes :: "nat \<Rightarrow> string \<Rightarrow> string" where
  \<comment> \<open>\<open>if initial_slashes: path = slash*initial_slashes + path\<close>\<close>
  "restore_slashes slashes joined =
     (if slashes \<noteq> 0 then py_repeat ''/'' slashes @ joined else joined)"

definition vfs_normpath :: "string \<Rightarrow> py_error + string" where
  "vfs_normpath path =
     (if path = '''' then Inr ''.''
      else (case norm_comps path of
              Inl e \<Rightarrow> Inl e
            | Inr new_comps \<Rightarrow>
                (let restored = restore_slashes (initial_slashes path) (py_join ''/'' new_comps)
                 in Inr (if restored = '''' then ''.'' else restored))))"

section \<open>The specification's description of both functions\<close>

text \<open>
  The definitions of this section follow the wording of the specification, not the
  code. \<open>spec_dotdot\<close> is its treatment of a \<open>..\<close> segment (pop, append or drop, in
  that order of tests), \<open>spec_step\<close> one step of its scan, \<open>spec_scan\<close> the whole scan
  of the split path, and \<open>join_spec\<close> its left fold for joining.
\<close>

definition spec_dotdot :: "bool \<Rightarrow> string list \<Rightarrow> string list" where
  "spec_dotdot leading_slash out =
     (if out \<noteq> [] \<and> last out \<noteq> ''..'' then butlast out
      else if (\<not> leading_slash \<and> out = []) \<or> (out \<noteq> [] \<and> last out = ''..'')
        then out @ [''..'']
      else out)"

definition spec_step :: "bool \<Rightarrow> string list \<Rightarrow> string \<Rightarrow> string list" where
  "spec_step leading_slash out seg =
     (if seg = '''' \<or> seg = ''.'' then out
      else if seg = ''..'' then spec_dotdot leading_slash out
      else out @ [seg])"

definition spec_scan :: "string \<Rightarrow> string list" where
  "spec_scan p = foldl (spec_step (startswith p ''/'')) [] (py_split CHR ''/'' p)"



definition leading_slashes :: "string \<Rightarrow> nat" where
  \<comment> \<open>the number of \<open>/\<close> characters a string starts with\<close>
  "leading_slashes s = length (takeWhile (\<lambda>c. c = CHR ''/'') s)"

section \<open>The shape of a normalised segment list\<close>

text \<open>
  A segment of the output list is never empty, never \<open>.\<close> and holds no slash; every
  \<open>..\<close> of the list stands before every other segment; and the list of a path with
  a leading slash holds no \<open>..\<close> at all.
\<close>

definition segment_ok :: "string \<Rightarrow> bool" where
  "segment_ok seg = (seg \<noteq> '''' \<and> seg \<noteq> ''.'' \<and> CHR ''/'' \<notin> set seg)"

fun dots_first :: "string list \<Rightarrow> bool" where
  "dots_first [] = True"
| "dots_first (seg # segs) =
     (if seg = ''..'' then dots_first segs else ''..'' \<notin> set segs)"

definition canonical :: "bool \<Rightarrow> string list \<Rightarrow> bool" where
  "canonical leading_slash segs =
     ((\<forall>seg \<in> set segs. segment_ok seg) \<and> dots_first segs \<and>
      (leading_slash \<longrightarrow> ''..'' \<notin> set segs))"

section \<open>Python's string operations\<close>

text \<open>
  What \<open>startswith\<close>, \<open>endswith\<close>, \<open>split\<close> and \<open>join\<close> do on the strings the two
  functions build.
\<close>

lemma startswith_simps [simp]:
  "startswith [] (c # cs) = False"
  "startswith s [] = True"
  "startswith (x # xs) (c # cs) = (x = c \<and> startswith xs cs)"
  by (auto simp: startswith_def)



lemma py_split_nonempty [simp]: "py_split sep s \<noteq> []"
  by (induction s) auto

lemma py_split_sepfree: "w \<in> set (py_split sep s) \<Longrightarrow> sep \<notin> set w"
proof (induction s arbitrary: w)
  case Nil
  then show ?case by simp
next
  case (Cons c cs)
  show ?case
  proof (cases "c = sep")
    case True
    with Cons show ?thesis by auto
  next
    case False
    obtain v vs where vs: "py_split sep cs = v # vs"
      by (cases "py_split sep cs") auto
    with Cons False show ?thesis by auto
  qed
qed

lemma py_split_word: "sep \<notin> set w \<Longrightarrow> py_split sep w = [w]"
  by (induction w) auto

lemma py_split_append: "sep \<notin> set w \<Longrightarrow> py_split sep (w @ sep # s) = w # py_split sep s"
  by (induction w) auto

lemma py_split_join:
  "segs \<noteq> [] \<Longrightarrow> \<forall>w \<in> set segs. sep \<notin> set w \<Longrightarrow>
   py_split sep (py_join [sep] segs) = segs"
  by (induction "[sep]" segs rule: py_join.induct) (auto simp: py_split_word py_split_append)

lemma py_join_empty_iff:
  "\<forall>seg \<in> set segs. seg \<noteq> [] \<Longrightarrow> (py_join sep segs = []) = (segs = [])"
  by (induction sep segs rule: py_join.induct) auto

section \<open>The code's loop is the specification's scan\<close>

text \<open>
  Neither \<open>new_comps[-1]\<close> nor \<open>new_comps.pop()\<close> is reached on an empty list, so
  every step returns a list, and that list is the one \<open>spec_step\<close> describes.
\<close>

lemma initial_slashes_pos: "(0 < initial_slashes p) = startswith p ''/''"
  by (simp add: initial_slashes_def)

lemma initial_slashes_cases:
  "initial_slashes p = 0 \<or> initial_slashes p = 1 \<or> initial_slashes p = 2"
  by (simp add: initial_slashes_def)

lemma initial_slashes_le: "initial_slashes p \<le> 2"
  by (simp add: initial_slashes_def)

lemma norm_step_eq: "norm_step s nc c = Inr (spec_step (0 < s) nc c)"
  by (simp add: norm_step_def append_test_def py_last_def py_pop_def spec_step_def
      spec_dotdot_def)

lemma norm_loop_eq: "norm_loop s nc cs = Inr (foldl (spec_step (0 < s)) nc cs)"
  by (induction cs arbitrary: nc) (simp_all add: norm_step_eq)

lemma norm_comps_eq:
  "norm_comps p = Inr (foldl (spec_step (startswith p ''/'')) [] (py_split CHR ''/'' p))"
  by (simp add: norm_comps_def norm_loop_eq initial_slashes_pos)

lemma norm_comps_scan: "norm_comps p = Inr (spec_scan p)"
  by (simp add: norm_comps_eq spec_scan_def)

lemma vfs_normpath_eq:
  "vfs_normpath p =
     Inr (if p = '''' \<or> restore_slashes (initial_slashes p) (py_join ''/'' (spec_scan p)) = ''''
          then ''.''
          else restore_slashes (initial_slashes p) (py_join ''/'' (spec_scan p)))"
  by (simp add: vfs_normpath_def norm_comps_scan Let_def)

lemma vfs_normpath_dot: "vfs_normpath ''.'' = Inr ''.''"
  by code_simp

lemma restore_empty_iff:
  "(restore_slashes n s = []) = (n = 0 \<and> s = [])"
  by (cases n) (simp_all add: restore_slashes_def py_repeat_def)

section \<open>The scan keeps the segment list canonical\<close>

lemma dots_first_all_dots:
  "dots_first segs \<Longrightarrow> segs \<noteq> [] \<Longrightarrow> last segs = ''..'' \<Longrightarrow> \<forall>x \<in> set segs. x = ''..''"
  by (induction segs) (auto split: if_splits dest: last_in_set)

lemma dots_first_replicate: "\<forall>x \<in> set segs. x = ''..'' \<Longrightarrow> dots_first (segs @ [''..''])"
  by (induction segs) auto

lemma dots_first_snoc: "dots_first segs \<Longrightarrow> seg \<noteq> ''..'' \<Longrightarrow> dots_first (segs @ [seg])"
  by (induction segs) auto

lemma dots_first_butlast: "dots_first segs \<Longrightarrow> dots_first (butlast segs)"
  by (induction segs) (auto dest: in_set_butlastD)

lemma canonical_Nil: "canonical a []"
  by (simp add: canonical_def)

lemma canonical_step:
  assumes "canonical a out" and "CHR ''/'' \<notin> set seg"
  shows "canonical a (spec_step a out seg)"
proof -
  consider (skip) "seg = '''' \<or> seg = ''.''"
    | (dd) "seg = ''..''" | (other) "seg \<noteq> ''''" "seg \<noteq> ''.''" "seg \<noteq> ''..''"
    by blast
  then show ?thesis
  proof cases
    case skip
    with assms show ?thesis by (auto simp: spec_step_def)
  next
    case other
    with assms show ?thesis
      by (auto simp: spec_step_def canonical_def segment_ok_def dots_first_snoc)
  next
    case dd
    have ok: "segment_ok ''..''" by (simp add: segment_ok_def)
    show ?thesis
    proof (cases "out \<noteq> [] \<and> last out \<noteq> ''..''")
      case True
      with assms dd show ?thesis
        by (auto simp: spec_step_def spec_dotdot_def canonical_def dots_first_butlast
            dest: in_set_butlastD)
    next
      case False
      show ?thesis
      proof (cases "out = []")
        case True
        with dd ok show ?thesis
          by (simp add: spec_step_def spec_dotdot_def canonical_def)
      next
        case ne: False
        with False have l: "last out = ''..''" by simp
        from assms(1) have "dots_first out" by (simp add: canonical_def)
        from dots_first_all_dots[OF this ne l] have alld: "\<forall>x \<in> set out. x = ''..''" .
        from ne l have "''..'' \<in> set out" using last_in_set by metis
        with assms(1) have na: "\<not> a" by (auto simp: canonical_def)
        from alld have "dots_first (out @ [''..''])" by (rule dots_first_replicate)
        with assms(1) na ne l dd ok show ?thesis
          by (auto simp: spec_step_def spec_dotdot_def canonical_def)
      qed
    qed
  qed
qed

lemma canonical_foldl:
  "canonical a out \<Longrightarrow> \<forall>seg \<in> set segs. CHR ''/'' \<notin> set seg \<Longrightarrow>
   canonical a (foldl (spec_step a) out segs)"
  by (induction segs arbitrary: out) (simp_all add: canonical_step)

lemma canonical_scan:
  "canonical a (foldl (spec_step a) [] (py_split CHR ''/'' p))"
  by (rule canonical_foldl) (auto simp: canonical_Nil dest: py_split_sepfree)

lemma canonical_spec_scan: "canonical (startswith p ''/'') (spec_scan p)"
  unfolding spec_scan_def by (rule canonical_scan)

lemma canonical_scan_slashes: "canonical (0 < initial_slashes p) (spec_scan p)"
  using canonical_spec_scan[of p] by (simp add: initial_slashes_pos)

lemma spec_scan_no_empty_dot: "'''' \<notin> set (spec_scan p) \<and> ''.'' \<notin> set (spec_scan p)"
  using canonical_spec_scan[of p] by (auto simp: canonical_def segment_ok_def)

lemma spec_scan_segments_nonempty: "\<forall>seg \<in> set (spec_scan p). seg \<noteq> []"
  using spec_scan_no_empty_dot[of p] by auto

section \<open>A canonical list is a fixed point of the scan\<close>

lemma foldl_plain:
  "\<forall>seg \<in> set segs. segment_ok seg \<and> seg \<noteq> ''..'' \<Longrightarrow>
   foldl (spec_step a) out segs = out @ segs"
  by (induction segs arbitrary: out) (auto simp: spec_step_def segment_ok_def)

lemma foldl_dots_first:
  "\<forall>x \<in> set out. x = ''..'' \<Longrightarrow> dots_first segs \<Longrightarrow> \<forall>seg \<in> set segs. segment_ok seg \<Longrightarrow>
   foldl (spec_step False) out segs = out @ segs"
proof (induction segs arbitrary: out)
  case Nil
  then show ?case by simp
next
  case (Cons seg segs)
  show ?case
  proof (cases "seg = ''..''")
    case True
    have st: "spec_step False out seg = out @ [seg]"
      using Cons.prems(1) True by (cases "out = []") (auto simp: spec_step_def spec_dotdot_def)
    have "foldl (spec_step False) (out @ [seg]) segs = (out @ [seg]) @ segs"
      using Cons.prems True by (intro Cons.IH) auto
    with st show ?thesis by simp
  next
    case False
    with Cons.prems have "\<forall>s \<in> set (seg # segs). segment_ok s \<and> s \<noteq> ''..''"
      by auto
    then show ?thesis by (rule foldl_plain)
  qed
qed

lemma canonical_fixed:
  assumes "canonical a segs"
  shows "foldl (spec_step a) [] segs = segs"
proof (cases a)
  case True
  with assms have "\<forall>seg \<in> set segs. segment_ok seg \<and> seg \<noteq> ''..''"
    by (auto simp: canonical_def)
  from foldl_plain[OF this, of a "[]"] show ?thesis by simp
next
  case False
  with assms foldl_dots_first[of "[]" segs] show ?thesis
    by (simp add: canonical_def)
qed

lemma py_join_no_slash:
  assumes "canonical a segs"
  shows "\<not> startswith (py_join ''/'' segs) ''/''"
proof (cases segs)
  case Nil
  then show ?thesis by simp
next
  case (Cons x xs)
  with assms have "x \<noteq> []" and "CHR ''/'' \<notin> set x"
    by (auto simp: canonical_def segment_ok_def)
  then obtain c cs where x: "x = c # cs" and "c \<noteq> CHR ''/''"
    by (cases x) auto
  with Cons show ?thesis by (cases xs) auto
qed

lemma scan_split_join:
  assumes "canonical a segs"
  shows "foldl (spec_step a) [] (py_split CHR ''/'' (py_join ''/'' segs)) = segs"
proof (cases "segs = []")
  case True
  then show ?thesis by (simp add: spec_step_def)
next
  case False
  from assms have "\<forall>w \<in> set segs. CHR ''/'' \<notin> set w"
    by (simp add: canonical_def segment_ok_def)
  with False have "py_split CHR ''/'' (py_join [CHR ''/''] segs) = segs"
    by (rule py_split_join)
  with assms show ?thesis by (simp add: canonical_fixed)
qed

lemma restored_initial_slashes:
  assumes "canonical (0 < n) segs" and "n \<le> 2"
  shows "initial_slashes (restore_slashes n (py_join ''/'' segs)) = n"
proof -
  let ?j = "py_join ''/'' segs"
  have ns: "\<not> startswith ?j ''/''" using assms(1) by (rule py_join_no_slash)
  from assms(2) consider "n = 0" | "n = 1" | "n = 2" by linarith
  then show ?thesis
  proof cases
    case 1
    with ns show ?thesis by (simp add: restore_slashes_def initial_slashes_def)
  next
    case 2
    with ns show ?thesis
      by (simp add: restore_slashes_def initial_slashes_def py_repeat_def)
  next
    case 3
    with ns show ?thesis
      by (simp add: restore_slashes_def initial_slashes_def py_repeat_def numeral_2_eq_2)
  qed
qed

lemma restored_scan:
  assumes "canonical (0 < n) segs" and "n \<le> 2"
  shows "spec_scan (restore_slashes n (py_join ''/'' segs)) = segs"
proof -
  let ?j = "py_join ''/'' segs"
  let ?r = "restore_slashes n ?j"
  have "0 < initial_slashes ?r \<longleftrightarrow> 0 < n"
    using restored_initial_slashes[OF assms] by simp
  then have a: "startswith ?r ''/'' \<longleftrightarrow> 0 < n" by (simp add: initial_slashes_pos)
  have fixed: "foldl (spec_step (0 < n)) [] (py_split CHR ''/'' ?j) = segs"
    using assms(1) by (rule scan_split_join)
  from assms(2) consider "n = 0" | "n = 1" | "n = 2" by linarith
  then have "foldl (spec_step (0 < n)) [] (py_split CHR ''/'' ?r) =
             foldl (spec_step (0 < n)) [] (py_split CHR ''/'' ?j)"
  proof cases
    case 1
    then show ?thesis by (simp add: restore_slashes_def)
  next
    case 2
    then show ?thesis by (simp add: restore_slashes_def py_repeat_def spec_step_def)
  next
    case 3
    then show ?thesis
      by (simp add: restore_slashes_def py_repeat_def spec_step_def numeral_2_eq_2)
  qed
  with fixed a show ?thesis by (simp add: spec_scan_def)
qed

lemma vfs_normpath_restored:
  assumes "restore_slashes (initial_slashes p) (py_join ''/'' (spec_scan p)) = r" and "r \<noteq> []"
  shows "vfs_normpath r = Inr r"
proof -
  have "initial_slashes r = initial_slashes p"
    using restored_initial_slashes[OF canonical_scan_slashes initial_slashes_le, of p] assms(1)
    by simp
  moreover have "spec_scan r = spec_scan p"
    using restored_scan[OF canonical_scan_slashes initial_slashes_le, of p] assms(1)
    by simp
  ultimately show ?thesis using assms by (simp add: vfs_normpath_eq)
qed

lemma leading_slashes_restored:
  assumes "canonical (0 < n) segs" and "n \<le> 2"
  shows "leading_slashes (restore_slashes n (py_join ''/'' segs)) = n"
proof -
  let ?j = "py_join ''/'' segs"
  have "\<not> startswith ?j ''/''" using assms(1) by (rule py_join_no_slash)
  then have j: "takeWhile (\<lambda>c. c = CHR ''/'') ?j = []"
    by (cases ?j) auto
  from assms(2) consider "n = 0" | "n = 1" | "n = 2" by linarith
  then show ?thesis
  proof cases
    case 1
    with j show ?thesis by (simp add: restore_slashes_def leading_slashes_def)
  next
    case 2
    with j show ?thesis by (simp add: restore_slashes_def leading_slashes_def py_repeat_def)
  next
    case 3
    with j show ?thesis
      by (simp add: restore_slashes_def leading_slashes_def py_repeat_def numeral_2_eq_2)
  qed
qed

lemma leading_slashes_normpath:
  "\<exists>q. vfs_normpath p = Inr q \<and> leading_slashes q = initial_slashes p"
proof -
  let ?r = "restore_slashes (initial_slashes p) (py_join ''/'' (spec_scan p))"
  show ?thesis
  proof (cases "p = '''' \<or> ?r = ''''")
    case True
    then have "vfs_normpath p = Inr ''.''" by (simp add: vfs_normpath_eq)
    moreover have "initial_slashes p = 0"
    proof (cases "p = ''''")
      case True
      then show ?thesis by (simp add: initial_slashes_def)
    next
      case False
      with \<open>p = '''' \<or> ?r = ''''\<close> have "?r = ''''" by simp
      then show ?thesis by (simp only: restore_empty_iff)
    qed
    ultimately show ?thesis by (simp add: leading_slashes_def)
  next
    case False
    then have "vfs_normpath p = Inr ?r" by (simp add: vfs_normpath_eq)
    moreover have "leading_slashes ?r = initial_slashes p"
      using canonical_scan_slashes initial_slashes_le by (rule leading_slashes_restored)
    ultimately show ?thesis by simp
  qed
qed

lemma split_restored:
  assumes "canonical (0 < n) segs" and "n \<le> 2"
  shows "set (py_split CHR ''/'' (restore_slashes n (py_join ''/'' segs))) \<subseteq> set segs \<union> {[]}"
proof -
  let ?j = "py_join ''/'' segs"
  have j: "set (py_split CHR ''/'' ?j) \<subseteq> set segs \<union> {[]}"
  proof (cases "segs = []")
    case True
    then show ?thesis by simp
  next
    case False
    from assms(1) have "\<forall>w \<in> set segs. CHR ''/'' \<notin> set w"
      by (simp add: canonical_def segment_ok_def)
    with False have "py_split CHR ''/'' (py_join [CHR ''/''] segs) = segs"
      by (rule py_split_join)
    then show ?thesis by auto
  qed
  from assms(2) consider "n = 0" | "n = 1" | "n = 2" by linarith
  then show ?thesis
  proof cases
    case 1
    with j show ?thesis by (simp add: restore_slashes_def)
  next
    case 2
    with j show ?thesis by (simp add: restore_slashes_def py_repeat_def)
  next
    case 3
    with j show ?thesis by (simp add: restore_slashes_def py_repeat_def numeral_2_eq_2)
  qed
qed

section \<open>Joining is a left fold\<close>



section \<open>Joining on both string types\<close>

text \<open>
  On byte strings alone the typed function returns what the function on one string
  type returns. Concatenation cannot fail between byte strings, nor between strings
  that are unicode or ASCII byte strings, and each of the two families is closed under
  it and holds the literal \<open>'/'\<close>.
\<close>

lemma construct_path_typed_str:
  "vfs_construct_path_typed (Str a) (map Str p) = Inr (Str (vfs_construct_path a p))"
  by (induction p arbitrary: a) simp_all

lemma py_add_str:
  "is_str a \<Longrightarrow> is_str b \<Longrightarrow> \<exists>c. py_add a b = Inr c \<and> is_str c"
  by (cases a; cases b) simp_all

lemma py_add_ascii:
  "ascii_pystr a \<Longrightarrow> ascii_pystr b \<Longrightarrow> \<exists>c. py_add a b = Inr c \<and> ascii_pystr c"
  by (cases a; cases b) (simp_all add: py_decode_def is_ascii_def)

lemma construct_path_typed_closed:
  assumes add: "\<And>a b. P a \<Longrightarrow> P b \<Longrightarrow> \<exists>c. py_add a b = Inr c \<and> P c"
    and slash: "P (Str ''/'')"
  shows "P path \<Longrightarrow> \<forall>s \<in> set p. P s \<Longrightarrow> \<exists>r. vfs_construct_path_typed path p = Inr r"
proof (induction p arbitrary: path)
  case Nil
  then show ?case by simp
next
  case (Cons b p)
  from Cons.prems have b: "P b" and p: "\<forall>s \<in> set p. P s" by simp_all
  obtain c where c: "py_add path b = Inr c" "P c"
    using add[OF Cons.prems(1) b] by blast
  obtain sb where sb: "py_add (Str ''/'') b = Inr sb" "P sb"
    using add[OF slash b] by blast
  obtain d where d: "py_add path sb = Inr d" "P d"
    using add[OF Cons.prems(1) sb(2)] by blast
  from Cons.IH[OF b p] Cons.IH[OF c(2) p] Cons.IH[OF d(2) p] c sb d
  show ?case by simp
qed

lemma construct_path_typed_total_str:
  "\<forall>s \<in> set (base # segments). is_str s \<Longrightarrow>
   \<exists>r. vfs_construct_path_typed base segments = Inr r"
  using construct_path_typed_closed[of is_str base segments] py_add_str by simp

lemma construct_path_typed_total_ascii:
  "\<forall>s \<in> set (base # segments). ascii_pystr s \<Longrightarrow>
   \<exists>r. vfs_construct_path_typed base segments = Inr r"
  using construct_path_typed_closed[of ascii_pystr base segments] py_add_ascii
  by (simp add: is_ascii_def)

section \<open>The claims\<close>

text \<open>
  Claim C1. Normalisation is idempotent: for every path \<open>p\<close>, \<open>vfs_normpath\<close> returns
  a string \<open>q\<close>, and normalising \<open>q\<close> again returns \<open>q\<close>.
\<close>

theorem normpath_idempotent:
  "\<exists>q. vfs_normpath p = Inr q \<and> vfs_normpath q = Inr q"
proof -
  let ?r = "restore_slashes (initial_slashes p) (py_join ''/'' (spec_scan p))"
  show ?thesis
  proof (cases "p = '''' \<or> ?r = ''''")
    case True
    then have "vfs_normpath p = Inr ''.''" by (simp add: vfs_normpath_eq)
    with vfs_normpath_dot show ?thesis by simp
  next
    case False
    then have "vfs_normpath p = Inr ?r" by (simp add: vfs_normpath_eq)
    moreover from False have "vfs_normpath ?r = Inr ?r"
      by (intro vfs_normpath_restored[of p]) simp_all
    ultimately show ?thesis by simp
  qed
qed

theorem normpath_idempotent_witness:
  "vfs_normpath ''//a/./../../b//c/'' = Inr ''//b/c'' \<and>
   vfs_normpath ''//b/c'' = Inr ''//b/c''"
proof -
  have v: "vfs_normpath ''//a/./../../b//c/'' = Inr ''//b/c''" by code_simp
  from normpath_idempotent[of "''//a/./../../b//c/''"] v show ?thesis by auto
qed

text \<open>
  Claim C2. On a segment \<open>..\<close> the loop body does what the specification says, for
  every path and every output list built so far: it pops the last entry when there is
  one and it is not \<open>..\<close>; else it appends \<open>..\<close> when the path has no leading slash
  and the list is empty, or the last entry is \<open>..\<close>; else it drops the segment. The
  whole loop over the split path is the specification's scan, and \<open>/../a\<close> becomes
  \<open>/a\<close> while \<open>../a\<close> stays.
\<close>

theorem dotdot_handling:
  "norm_step (initial_slashes path) out ''..'' = Inr (spec_dotdot (startswith path ''/'') out) \<and>
   norm_comps path = Inr (spec_scan path) \<and>
   vfs_normpath ''/../a'' = Inr ''/a'' \<and>
   vfs_normpath ''../a'' = Inr ''../a''"
proof -
  have "norm_step (initial_slashes path) out ''..'' =
        Inr (spec_dotdot (startswith path ''/'') out)"
    by (simp add: norm_step_eq initial_slashes_pos spec_step_def)
  moreover have "vfs_normpath ''/../a'' = Inr ''/a''" by code_simp
  moreover have "vfs_normpath ''../a'' = Inr ''../a''" by code_simp
  ultimately show ?thesis by (simp add: norm_comps_scan)
qed

theorem dotdot_handling_witness:
  "norm_step (initial_slashes ''/x/..'') [''x''] ''..'' =
     Inr (spec_dotdot (startswith ''/x/..'' ''/'') [''x'']) \<and>
   norm_comps ''/x/..'' = Inr (spec_scan ''/x/..'') \<and>
   vfs_normpath ''/../a'' = Inr ''/a'' \<and>
   vfs_normpath ''../a'' = Inr ''../a''"
  by (rule dotdot_handling)

text \<open>
  Claim C3. The result starts with exactly two slashes if and only if the path starts
  with \<open>//\<close> and not with \<open>///\<close>; for every other path that starts with a slash
  (one slash, or three and more) the result starts with exactly one. \<open>//a/b\<close> stays
  and \<open>////a\<close> becomes \<open>/a\<close>.
\<close>

theorem leading_slash_count:
  "(\<exists>q. vfs_normpath p = Inr q \<and>
      (leading_slashes q = 2 \<longleftrightarrow> startswith p ''//'' \<and> \<not> startswith p ''///'') \<and>
      (startswith p ''/'' \<and> \<not> (startswith p ''//'' \<and> \<not> startswith p ''///'')
         \<longrightarrow> leading_slashes q = 1)) \<and>
   vfs_normpath ''//a/b'' = Inr ''//a/b'' \<and>
   vfs_normpath ''////a'' = Inr ''/a''"
proof -
  obtain q where q: "vfs_normpath p = Inr q" "leading_slashes q = initial_slashes p"
    using leading_slashes_normpath by blast
  have two: "initial_slashes p = 2 \<longleftrightarrow> startswith p ''//'' \<and> \<not> startswith p ''///''"
    by (cases p) (auto simp: initial_slashes_def)
  have one: "startswith p ''/'' \<and> \<not> (startswith p ''//'' \<and> \<not> startswith p ''///'')
      \<longrightarrow> initial_slashes p = 1"
    by (simp add: initial_slashes_def)
  have "vfs_normpath ''//a/b'' = Inr ''//a/b''" by code_simp
  moreover have "vfs_normpath ''////a'' = Inr ''/a''" by code_simp
  ultimately show ?thesis using q two one by auto
qed

theorem leading_slash_count_witness:
  "vfs_normpath ''///a//b'' = Inr ''/a/b'' \<and> leading_slashes ''/a/b'' = 1 \<and>
   startswith ''///a//b'' ''///''"
proof -
  have v: "vfs_normpath ''///a//b'' = Inr ''/a/b''" by code_simp
  have s: "startswith ''///a//b'' ''/'' \<and>
      \<not> (startswith ''///a//b'' ''//'' \<and> \<not> startswith ''///a//b'' ''///'')"
    by simp
  from leading_slash_count[of "''///a//b''"] v s have "leading_slashes ''/a/b'' = 1"
    by auto
  with v show ?thesis by simp
qed



text \<open>
  Claim C5. The loop body skips an empty segment and a segment \<open>.\<close>, whatever the
  output list holds; the output list of a path holds neither of them; and the returned
  string is \<open>.\<close> or that list joined behind the restored slashes. \<open>a//b\<close> becomes
  \<open>a/b\<close> and \<open>a/./b/../c\<close> becomes \<open>a/c\<close>.
\<close>

theorem skip_empty_and_dot:
  "norm_step slashes out '''' = Inr out \<and>
   norm_step slashes out ''.'' = Inr out \<and>
   (\<exists>segs q. norm_comps p = Inr segs \<and> '''' \<notin> set segs \<and> ''.'' \<notin> set segs \<and>
      vfs_normpath p = Inr q \<and>
      (q = ''.'' \<or> q = restore_slashes (initial_slashes p) (py_join ''/'' segs))) \<and>
   vfs_normpath ''a//b'' = Inr ''a/b'' \<and>
   vfs_normpath ''a/./b/../c'' = Inr ''a/c''"
proof -
  have "norm_step slashes out '''' = Inr out" "norm_step slashes out ''.'' = Inr out"
    by (simp_all add: norm_step_def)
  moreover have "\<exists>segs q. norm_comps p = Inr segs \<and> '''' \<notin> set segs \<and> ''.'' \<notin> set segs \<and>
      vfs_normpath p = Inr q \<and>
      (q = ''.'' \<or> q = restore_slashes (initial_slashes p) (py_join ''/'' segs))"
    using spec_scan_no_empty_dot[of p] by (simp add: norm_comps_scan vfs_normpath_eq)
  moreover have "vfs_normpath ''a//b'' = Inr ''a/b''" by code_simp
  moreover have "vfs_normpath ''a/./b/../c'' = Inr ''a/c''" by code_simp
  ultimately show ?thesis by simp
qed

theorem skip_empty_and_dot_witness:
  "norm_step 1 [''a''] '''' = Inr [''a''] \<and>
   norm_step 1 [''a''] ''.'' = Inr [''a''] \<and>
   (\<exists>segs q. norm_comps ''/a/.//./b/'' = Inr segs \<and> '''' \<notin> set segs \<and> ''.'' \<notin> set segs \<and>
      vfs_normpath ''/a/.//./b/'' = Inr q \<and>
      (q = ''.'' \<or> q = restore_slashes (initial_slashes ''/a/.//./b/'') (py_join ''/'' segs))) \<and>
   vfs_normpath ''a//b'' = Inr ''a/b'' \<and>
   vfs_normpath ''a/./b/../c'' = Inr ''a/c''"
  by (rule skip_empty_and_dot)

text \<open>
  Claim C6. Joining \<open>a/b\<close>, \<open>../c\<close> and \<open>./d\<close> and normalising the result gives
  \<open>a/c/d\<close>.
\<close>

theorem join_then_normalize:
  "vfs_normpath (vfs_construct_path ''a/b'' [''../c'', ''./d'']) = Inr ''a/c/d''"
  by code_simp

text \<open>
  Claim C7. The empty path and the path \<open>.\<close> normalise to \<open>.\<close>. Whenever the joined
  output list with its slashes restored is the empty string, the path had no leading
  slash, the output list is empty, and \<open>vfs_normpath\<close> returns \<open>.\<close>. It never
  returns the empty string.
\<close>

theorem empty_result_is_dot:
  "vfs_normpath '''' = Inr ''.'' \<and>
   vfs_normpath ''.'' = Inr ''.'' \<and>
   (\<exists>segs. norm_comps p = Inr segs \<and>
      (restore_slashes (initial_slashes p) (py_join ''/'' segs) = '''' \<longrightarrow>
         vfs_normpath p = Inr ''.'' \<and> \<not> startswith p ''/'' \<and> segs = [])) \<and>
   vfs_normpath p \<noteq> Inr ''''"
proof -
  let ?r = "restore_slashes (initial_slashes p) (py_join ''/'' (spec_scan p))"
  have "vfs_normpath '''' = Inr ''.''" by (simp add: vfs_normpath_def)
  moreover have "?r = '''' \<longrightarrow>
      vfs_normpath p = Inr ''.'' \<and> \<not> startswith p ''/'' \<and> spec_scan p = []"
  proof
    assume r: "?r = ''''"
    then have n: "initial_slashes p = 0" and j: "py_join ''/'' (spec_scan p) = []"
      by (simp_all only: restore_empty_iff)
    from n initial_slashes_pos[of p] have "\<not> startswith p ''/''" by simp
    moreover from j have "spec_scan p = []"
      using py_join_empty_iff[OF spec_scan_segments_nonempty, of "''/''" p] by simp
    moreover from r have "vfs_normpath p = Inr ''.''" by (simp add: vfs_normpath_eq)
    ultimately show "vfs_normpath p = Inr ''.'' \<and> \<not> startswith p ''/'' \<and> spec_scan p = []"
      by simp
  qed
  moreover have "vfs_normpath p \<noteq> Inr ''''" by (simp add: vfs_normpath_eq)
  ultimately show ?thesis using vfs_normpath_dot by (simp add: norm_comps_scan)
qed

theorem empty_result_is_dot_witness:
  "norm_comps ''a/./..'' = Inr [] \<and>
   restore_slashes (initial_slashes ''a/./..'') (py_join ''/'' []) = '''' \<and>
   vfs_normpath ''a/./..'' = Inr ''.''"
proof -
  have c: "norm_comps ''a/./..'' = Inr []" by code_simp
  have r: "restore_slashes (initial_slashes ''a/./..'') (py_join ''/'' []) = ''''"
    by code_simp
  from empty_result_is_dot[of "''a/./..''"] c r have "vfs_normpath ''a/./..'' = Inr ''.''"
    by auto
  with c r show ?thesis by simp
qed

text \<open>
  Claim C8, as stated: both functions return a string on every string input. For
  \<open>vfs_construct_path\<close> this fails where a byte string with a byte above 127 meets a
  unicode string: joining the byte string of the two bytes C3 and A9 with the unicode segment
  \<open>u'b'\<close> raises \<open>UnicodeDecodeError\<close>, as \<open>os.path.join\<close>, which the function
  mimics, does.
\<close>

theorem construct_path_mixed_raises:
  "vfs_construct_path_typed (Str [CHR 0xC3, CHR 0xA9]) [Unicode [98]] = Inl UnicodeDecodeError"
  by code_simp

text \<open>
  Claim C8, amended. \<open>vfs_construct_path\<close> returns a string whenever the base and all
  segments are byte strings, and whenever each of them is a unicode string or a byte
  string of ASCII bytes only (so also when all are unicode); on byte strings it returns
  the result of the function on one string type. In \<open>vfs_normpath\<close> the two list
  operations that can raise are guarded: the loop body returns a list from every state,
  so does the loop, and the function returns a string for every path.
\<close>

theorem path_functions_total_typed:
  "((\<forall>s \<in> set (base # segments). is_str s) \<or>
    (\<forall>s \<in> set (base # segments). ascii_pystr s) \<longrightarrow>
      (\<exists>r. vfs_construct_path_typed base segments = Inr r)) \<and>
   vfs_construct_path_typed (Str a) (map Str p) = Inr (Str (vfs_construct_path a p)) \<and>
   (\<exists>r. norm_step slashes out seg = Inr r) \<and>
   (\<exists>r. norm_loop slashes' out' segs = Inr r) \<and>
   (\<exists>r. vfs_normpath path = Inr r)"
proof -
  have "(\<forall>s \<in> set (base # segments). is_str s) \<or>
        (\<forall>s \<in> set (base # segments). ascii_pystr s) \<longrightarrow>
        (\<exists>r. vfs_construct_path_typed base segments = Inr r)"
    using construct_path_typed_total_str construct_path_typed_total_ascii by blast
  then show ?thesis
    by (simp add: construct_path_typed_str norm_step_eq norm_loop_eq vfs_normpath_eq)
qed

theorem path_functions_total_typed_witness:
  "list_all is_str [Str [CHR 0xC3, CHR 0xA9], Str ''b'', Str ''..''] \<and>
   (\<exists>r. vfs_construct_path_typed (Str [CHR 0xC3, CHR 0xA9]) [Str ''b'', Str ''..''] = Inr r) \<and>
   list_all ascii_pystr [Unicode [233], Str ''b'', Unicode [99]] \<and>
   (\<exists>r. vfs_construct_path_typed (Unicode [233]) [Str ''b'', Unicode [99]] = Inr r) \<and>
   (\<exists>r. norm_step 1 [] ''..'' = Inr r) \<and>
   (\<exists>r. norm_loop 2 [] [''..'', ''..'', '''', ''x'', ''..'', ''..''] = Inr r) \<and>
   (\<exists>r. vfs_normpath ''/../..//x/../..'' = Inr r)"
proof -
  have s: "\<forall>s \<in> set (Str [CHR 0xC3, CHR 0xA9] # [Str ''b'', Str ''..'']). is_str s"
    by simp
  have a: "\<forall>s \<in> set (Unicode [233] # [Str ''b'', Unicode [99]]). ascii_pystr s"
    by (simp add: is_ascii_def)
  from path_functions_total_typed[where base = "Str [CHR 0xC3, CHR 0xA9]"
      and segments = "[Str ''b'', Str ''..'']"] s
  have 1: "\<exists>r. vfs_construct_path_typed (Str [CHR 0xC3, CHR 0xA9]) [Str ''b'', Str ''..''] = Inr r"
    by blast
  from path_functions_total_typed[where base = "Unicode [233]"
      and segments = "[Str ''b'', Unicode [99]]"] a
  have 2: "\<exists>r. vfs_construct_path_typed (Unicode [233]) [Str ''b'', Unicode [99]] = Inr r"
    by blast
  from path_functions_total_typed[where slashes = 1 and out = "[]" and seg = "''..''"
      and slashes' = 2 and out' = "[]" and segs = "[''..'', ''..'', '''', ''x'', ''..'', ''..'']"
      and path = "''/../..//x/../..''"]
  have 3: "(\<exists>r. norm_step 1 [] ''..'' = Inr r) \<and>
   (\<exists>r. norm_loop 2 [] [''..'', ''..'', '''', ''x'', ''..'', ''..''] = Inr r) \<and>
   (\<exists>r. vfs_normpath ''/../..//x/../..'' = Inr r)"
    by blast
  from s a 1 2 3 show ?thesis by (simp add: is_ascii_def)
qed

text \<open>
  Claim C9. The result of \<open>vfs_normpath\<close> starts with a slash if and only if the path
  does.
\<close>

theorem absolute_preserved:
  "\<exists>q. vfs_normpath p = Inr q \<and> (startswith q ''/'' \<longleftrightarrow> startswith p ''/'')"
proof -
  obtain q' where q': "vfs_normpath p = Inr q'" "leading_slashes q' = initial_slashes p"
    using leading_slashes_normpath by blast
  have "0 < leading_slashes q' \<longleftrightarrow> startswith q' ''/''"
    by (cases q') (auto simp: leading_slashes_def)
  with q' show ?thesis by (simp add: initial_slashes_pos)
qed

theorem absolute_preserved_witness:
  "\<exists>q. vfs_normpath ''/a/../../b'' = Inr q \<and>
     (startswith q ''/'' \<longleftrightarrow> startswith ''/a/../../b'' ''/'')"
  by (rule absolute_preserved)

text \<open>
  Claim C10. For a path that starts with a slash, no segment of the result (split on
  the slash) is \<open>..\<close>.
\<close>

theorem absolute_no_dotdot:
  assumes "startswith p ''/''"
  shows "\<exists>q. vfs_normpath p = Inr q \<and> ''..'' \<notin> set (py_split CHR ''/'' q)"
proof -
  let ?r = "restore_slashes (initial_slashes p) (py_join ''/'' (spec_scan p))"
  from assms have n: "0 < initial_slashes p" by (simp add: initial_slashes_pos)
  then have "?r \<noteq> []" by (simp add: restore_empty_iff)
  moreover from assms have "p \<noteq> []" by auto
  ultimately have v: "vfs_normpath p = Inr ?r" by (simp add: vfs_normpath_eq)
  have "''..'' \<notin> set (spec_scan p)"
    using canonical_spec_scan[of p] assms by (simp add: canonical_def)
  moreover have "set (py_split CHR ''/'' ?r) \<subseteq> set (spec_scan p) \<union> {[]}"
    using canonical_scan_slashes initial_slashes_le by (rule split_restored)
  ultimately have "''..'' \<notin> set (py_split CHR ''/'' ?r)" by auto
  with v show ?thesis by simp
qed

theorem absolute_no_dotdot_witness:
  "startswith ''//../a/../../b/..'' ''/'' \<and>
   (\<exists>q. vfs_normpath ''//../a/../../b/..'' = Inr q \<and> ''..'' \<notin> set (py_split CHR ''/'' q))"
proof -
  have s: "startswith ''//../a/../../b/..'' ''/''" by simp
  from absolute_no_dotdot[OF s] s show ?thesis by simp
qed

end
